theory Spec2Isabelle
  imports Main
begin

section \<open>Values, collaborators and the engine object\<close>

text \<open>
  The values that flow through \<^verbatim>\<open>pomp/core/engine.py\<close>. A request is an instance of
  \<^verbatim>\<open>BaseHttpRequest\<close> or a plain string, an item is an instance of \<^verbatim>\<open>Item\<close>;
  \<open>PInt\<close> stands for any other object a crawler may yield. \<open>PList\<close> is a list or a tuple,
  which can be iterated again and again; \<open>PIter\<close> is a one-shot iterator object (a
  generator, an \<^verbatim>\<open>itertools.chain\<close>, an \<^verbatim>\<open>iter(...)\<close>) carrying the elements it has left.
\<close>

datatype pyval =
    PNone
  | PStr string
  | PReq string
  | PItem string
  | PInt int
  | PList "pyval list"
  | PIter "pyval list"

text \<open>
  Python truthiness, as tested by \<^verbatim>\<open>if x\<close>, \<^verbatim>\<open>not x\<close> and \<^verbatim>\<open>filter(None, ...)\<close>.
  Request and item instances and iterator objects have the default truth value of an
  object: true.
\<close>

fun truthy :: "pyval \<Rightarrow> bool" where
  "truthy PNone = False"
| "truthy (PStr s) = (s \<noteq> [])"
| "truthy (PReq u) = True"
| "truthy (PItem d) = True"
| "truthy (PInt n) = (n \<noteq> 0)"
| "truthy (PList xs) = (xs \<noteq> [])"
| "truthy (PIter xs) = True"

text \<open>
  What \<^verbatim>\<open>iterator(...)\<close> of \<^verbatim>\<open>pomp.core.utils\<close> hands back: a sequence that every
  pass sees whole (\<open>Seq\<close>), or a one-shot iterator (\<open>Iter\<close>) that a first pass empties.
\<close>

datatype 'a iterable = Seq "'a list" | Iter "'a list"

fun elems :: "'a iterable \<Rightarrow> 'a list" where
  "elems (Seq xs) = xs"
| "elems (Iter xs) = xs"

text \<open>The iterable as a second pass finds it, once a first pass has run to its end.\<close>

fun drained :: "'a iterable \<Rightarrow> 'a iterable" where
  "drained (Seq xs) = Seq xs"
| "drained (Iter xs) = Iter []"

text \<open>The elements read by \<^verbatim>\<open>list += v\<close> and \<^verbatim>\<open>itertools.chain(v, ...)\<close>.
  The engine applies them to the value of \<^verbatim>\<open>_process_result\<close> only, a list or a
  generator; on the other values Python iterates a string by characters and raises
  \<^verbatim>\<open>TypeError\<close> otherwise, which the engine never reaches.\<close>

fun py_elems :: "pyval \<Rightarrow> pyval list" where
  "py_elems (PList xs) = xs"
| "py_elems (PIter xs) = xs"
| "py_elems (PStr s) = map (\<lambda>c. PStr [c]) s"
| "py_elems v = []"

datatype response = Response string

datatype exn = QueueError string | AlreadyCalledError

text \<open>
  The history of calls the engine makes on its collaborators, in order. It is not a field
  of the source: it is what an observer of the collaborators sees, and what a stateful
  collaborator (the crawler's in-flight counter) may answer from.
\<close>

datatype event =
    Prepare
  | ResetState
  | PipeStart nat
  | PipeProcess nat pyval pyval
  | PipeStop nat
  | Dispatch pyval
  | QueuePut "pyval list"
  | QueueGet
  | LogException exn

text \<open>
  A pipeline stage is an object with a state of its own and the three hooks of
  \<^verbatim>\<open>BasePipeline\<close>. The hooks are supplied by the user of the engine.
\<close>

record 'ps pipe =
  pstate :: 'ps
  pipe_start :: "'ps \<Rightarrow> 'ps"
  pipe_process :: "'ps \<Rightarrow> pyval \<Rightarrow> pyval \<times> 'ps"
  pipe_stop :: "'ps \<Rightarrow> 'ps"

text \<open>What \<^verbatim>\<open>crawler.process\<close> returns: one batch, or a generator of batches
  (the \<^verbatim>\<open>isinstance(result, types.GeneratorType)\<close> test of \<^verbatim>\<open>response_callback\<close>).\<close>

datatype presult = Single pyval | Generator "pyval list"

record crawler =
  process :: "response \<Rightarrow> presult"
  next_requests :: "response \<Rightarrow> pyval"
  is_depth_first :: bool
  in_process :: "event list \<Rightarrow> bool"
  ENTRY_REQUESTS :: "pyval option"

text \<open>The queue: \<^verbatim>\<open>get_requests\<close> hands out a batch (\<open>Inr\<close>) or raises an exception
  (\<open>Inl\<close>, with its message).\<close>

record 'q queue =
  qstate :: 'q
  put_requests :: "pyval list \<Rightarrow> 'q \<Rightarrow> 'q"
  get_requests :: "'q \<Rightarrow> (string + pyval) \<times> 'q"

text \<open>A \<^verbatim>\<open>defer.Deferred\<close>: pending, or called back with a value.\<close>

datatype deferred = Pending | Fired pyval

text \<open>
  The \<^verbatim>\<open>Pomp\<close> object. \<open>pipelines\<close>, \<open>queue\<close>, \<open>stoped\<close> and \<open>stop_deferred\<close> are its
  attributes (the source spells \<^verbatim>\<open>stoped\<close>). Of \<^verbatim>\<open>self.downloader\<close> the model keeps
  \<open>fetch\<close>, the response the downloader obtains for a request. \<open>iterator\<close> is the helper
  that \<^verbatim>\<open>engine.py\<close> imports from \<^verbatim>\<open>pomp.core.utils\<close>; it is a parameter of the model.
  \<open>trace\<close> is the history of collaborator calls.
\<close>

record ('ps, 'q) pomp =
  fetch :: "pyval \<Rightarrow> response"
  iterator :: "pyval \<Rightarrow> pyval iterable"
  pipelines :: "'ps pipe list"
  queue :: "'q queue option"
  stoped :: bool
  stop_deferred :: deferred
  trace :: "event list"

text \<open>How a call of the engine ends: it returns a value, it raises, or the model's
  fuel ran out before the crawl did.\<close>

datatype 'a outcome = Return 'a | Raise exn | OutOfFuel

section \<open>The stop action and the stop-condition check\<close>

text \<open>\<^verbatim>\<open>filter_requests\<close>: the truthy elements of \<^verbatim>\<open>iterator(requests)\<close>.\<close>

definition filter_requests :: "('ps, 'q) pomp \<Rightarrow> pyval \<Rightarrow> pyval list" where
  "filter_requests s requests = filter truthy (elems (iterator s requests))"

definition stop_hook :: "'ps pipe \<Rightarrow> 'ps pipe" where
  "stop_hook p = p\<lparr>pstate := pipe_stop p (pstate p)\<rparr>"

text \<open>
  The loop \<^verbatim>\<open>for pipe in self.pipelines: pipe.stop(crawler)\<close> after its first \<open>j\<close>
  iterations; the whole loop is \<open>j = length (pipelines s)\<close>.
\<close>

definition stop_pipes :: "nat \<Rightarrow> ('ps, 'q) pomp \<Rightarrow> ('ps, 'q) pomp" where
  "stop_pipes j s =
     s\<lparr>pipelines := map stop_hook (take j (pipelines s)) @ drop j (pipelines s),
       trace := trace s @ map PipeStop [0..<min j (length (pipelines s))]\<rparr>"

text \<open>\<^verbatim>\<open>Deferred.callback(None)\<close>: a second call raises \<^verbatim>\<open>AlreadyCalledError\<close>.\<close>

definition callback :: "pyval \<Rightarrow> ('ps, 'q) pomp \<Rightarrow> pyval outcome \<times> ('ps, 'q) pomp" where
  "callback v s =
     (case stop_deferred s of
        Pending \<Rightarrow> (Return PNone, s\<lparr>stop_deferred := Fired v\<rparr>)
      | Fired w \<Rightarrow> (Raise AlreadyCalledError, s))"

definition mark_stoped :: "('ps, 'q) pomp \<Rightarrow> ('ps, 'q) pomp" where
  "mark_stoped s = s\<lparr>stoped := True\<rparr>"

text \<open>\<^verbatim>\<open>Pomp._stop\<close>.\<close>

definition stop :: "crawler \<Rightarrow> ('ps, 'q) pomp \<Rightarrow> pyval outcome \<times> ('ps, 'q) pomp" where
  "stop crawler s =
     (let s1 = mark_stoped s;
          s2 = stop_pipes (length (pipelines s1)) s1
      in callback PNone s2)"

text \<open>\<^verbatim>\<open>Pomp._check_stop\<close>. It returns \<^verbatim>\<open>request\<close>; an exception of \<^verbatim>\<open>_stop\<close> passes
  through.\<close>

definition check_stop ::
  "pyval \<Rightarrow> crawler \<Rightarrow> ('ps, 'q) pomp \<Rightarrow> pyval outcome \<times> ('ps, 'q) pomp" where
  "check_stop request crawler s =
     (if \<not> stoped s \<and> \<not> truthy request \<and> \<not> in_process crawler (trace s) then
        (case stop crawler s of
           (Return v, s') \<Rightarrow> (Return request, s')
         | (Raise e, s') \<Rightarrow> (Raise e, s')
         | (OutOfFuel, s') \<Rightarrow> (OutOfFuel, s'))
      else (Return request, s))"

section \<open>Classifying and piping what the crawler produced\<close>

text \<open>Sequencing: the second step runs on a normal return; an exception or the end of
  the fuel ends the whole call, as an uncaught Python exception does.\<close>

definition andthen ::
  "'a outcome \<times> 's \<Rightarrow> ('a \<Rightarrow> 's \<Rightarrow> 'b outcome \<times> 's) \<Rightarrow> 'b outcome \<times> 's" where
  "andthen r f =
     (case r of
        (Return v, s) \<Rightarrow> f v s
      | (Raise e, s) \<Rightarrow> (Raise e, s)
      | (OutOfFuel, s) \<Rightarrow> (OutOfFuel, s))"

text \<open>The two tests of \<^verbatim>\<open>_process_result\<close>:
  \<^verbatim>\<open>isinstance(i, BaseHttpRequest) or isstring(i)\<close> and \<^verbatim>\<open>isinstance(i, Item)\<close>.\<close>

fun is_request :: "pyval \<Rightarrow> bool" where
  "is_request (PReq u) = True"
| "is_request (PStr s) = True"
| "is_request v = False"

fun is_item :: "pyval \<Rightarrow> bool" where
  "is_item (PItem d) = True"
| "is_item v = False"

text \<open>
  One stage over the items in order, \<^verbatim>\<open>map(lambda i: pipe.process(crawler, i), items)\<close>:
  the values the stage returned, the stage afterwards, and the calls made.
\<close>

fun pipe_map :: "nat \<Rightarrow> 'ps pipe \<Rightarrow> pyval list \<Rightarrow> pyval list \<times> 'ps pipe \<times> event list" where
  "pipe_map k p [] = ([], p, [])"
| "pipe_map k p (i # rest) =
     (case pipe_process p (pstate p) i of
        (v, st) \<Rightarrow>
          (case pipe_map k (p\<lparr>pstate := st\<rparr>) rest of
             (vs, p', ev) \<Rightarrow> (v # vs, p', PipeProcess k i v # ev)))"

text \<open>
  The loop \<^verbatim>\<open>for pipe in self.pipelines: items = list(filter(None, map(...)))\<close>, the
  stages numbered from \<open>k\<close>.
\<close>

fun pipe_items ::
  "nat \<Rightarrow> 'ps pipe list \<Rightarrow> pyval list \<Rightarrow> pyval list \<times> 'ps pipe list \<times> event list" where
  "pipe_items k [] items = (items, [], [])"
| "pipe_items k (p # ps) items =
     (case pipe_map k p items of
        (vs, p', ev) \<Rightarrow>
          (case pipe_items (Suc k) ps (filter truthy vs) of
             (out, ps', ev') \<Rightarrow> (out, p' # ps', ev @ ev')))"

section \<open>The engine\<close>

text \<open>
  The collaborators are synchronous: the downloader calls back before it returns, the
  queue answers with a plain batch, and their hooks return normally, but for
  \<^verbatim>\<open>queue.get_requests\<close>, whose exception the source handles. Logging at level
  \<^verbatim>\<open>info\<close> is left out; \<^verbatim>\<open>log.exception\<close> is an event of the history.
\<close>

text \<open>
  The engine re-enters itself through the downloader, which calls \<^verbatim>\<open>response_callback\<close>
  for every response, and through \<^verbatim>\<open>_sync_or_async\<close>, which calls \<^verbatim>\<open>_on_next_requests\<close>.
  A crawl need not end, so the functions below take the re-entry as a parameter \<open>rec\<close>,
  and \<open>engine\<close> closes the loop with fuel: one unit for every nested re-entry.
\<close>

datatype call = ResponseCallback response | OnNextRequests pyval

type_synonym ('ps, 'q) reentry =
  "call \<Rightarrow> crawler \<Rightarrow> ('ps, 'q) pomp \<Rightarrow> pyval outcome \<times> ('ps, 'q) pomp"

text \<open>
  Modelled from the spec: \<^verbatim>\<open>BaseDownloader.process(requests, callback, crawler)\<close> of
  \<^verbatim>\<open>pomp.core.base\<close>, a synchronous downloader. It invokes the callback once per
  request, in order, and its value is a generator of what the callback returned (the
  source fires it with \<^verbatim>\<open>list(next_requests)  # fire generator\<close>). Every call site
  fires the generator before anything else happens, so the model runs it at once and
  returns the values it yields.
\<close>

fun downloader_process ::
  "('ps, 'q) reentry \<Rightarrow> crawler \<Rightarrow> pyval list \<Rightarrow> ('ps, 'q) pomp
     \<Rightarrow> pyval list outcome \<times> ('ps, 'q) pomp" where
  "downloader_process rec crawler [] s = (Return [], s)"
| "downloader_process rec crawler (r # rs) s =
     andthen (rec (ResponseCallback (fetch s r)) crawler (s\<lparr>trace := trace s @ [Dispatch r]\<rparr>))
       (\<lambda>v s1. andthen (downloader_process rec crawler rs s1)
          (\<lambda>vs s2. (Return (v # vs), s2)))"

text \<open>
  \<^verbatim>\<open>_sync_or_async(next_requests, crawler, self._on_next_requests)\<close>, where \<open>vs\<close> is
  the list \<^verbatim>\<open>[r for r in filter_requests(next_requests)]\<close>: the truthy values of a fired
  downloader generator (\<^verbatim>\<open>iterator\<close> hands a generator back as it is), or
  \<open>filter_requests\<close> of a plain value.
  Modelled from the spec: \<^verbatim>\<open>DeferredList\<close> of \<^verbatim>\<open>pomp.core.utils\<close>; on values that are
  all available it resolves at once with their list, and the callback runs at once.
\<close>

definition sync_or_async ::
  "('ps, 'q) reentry \<Rightarrow> pyval list \<Rightarrow> crawler \<Rightarrow> ('ps, 'q) pomp
     \<Rightarrow> pyval outcome \<times> ('ps, 'q) pomp" where
  "sync_or_async rec vs crawler s = rec (OnNextRequests (PList vs)) crawler s"

text \<open>\<^verbatim>\<open>Pomp._process_result\<close>. After the recursive step its value is the downloader's
  generator, already run to its end.\<close>

definition process_result ::
  "('ps, 'q) reentry \<Rightarrow> crawler \<Rightarrow> pyval iterable \<Rightarrow> ('ps, 'q) pomp
     \<Rightarrow> pyval outcome \<times> ('ps, 'q) pomp" where
  "process_result rec crawler items s =
     (let next_reqs = filter is_request (elems items);
          items' = filter is_item (elems (drained items))
      in case pipe_items 0 (pipelines s) items' of
           (out, ps', ev) \<Rightarrow>
             (let s1 = s\<lparr>pipelines := ps', trace := trace s @ ev\<rparr>
              in if queue s = None \<and> is_depth_first crawler \<and> next_reqs \<noteq> [] then
                   andthen (downloader_process rec crawler next_reqs s1)
                     (\<lambda>vs s2. andthen (sync_or_async rec (filter truthy vs) crawler s2)
                        (\<lambda>d s3. (Return (PIter []), s3)))
                 else (Return (PList next_reqs), s1)))"

text \<open>The loop \<^verbatim>\<open>for items in result: requests_from_items += self._process_result(...)\<close>.\<close>

fun process_batches ::
  "('ps, 'q) reentry \<Rightarrow> crawler \<Rightarrow> pyval list \<Rightarrow> pyval list \<Rightarrow> ('ps, 'q) pomp
     \<Rightarrow> pyval outcome \<times> ('ps, 'q) pomp" where
  "process_batches rec crawler [] requests_from_items s = (Return (PList requests_from_items), s)"
| "process_batches rec crawler (items # rest) requests_from_items s =
     andthen (process_result rec crawler (iterator s items) s)
       (\<lambda>v s1. process_batches rec crawler rest (requests_from_items @ py_elems v) s1)"

text \<open>Lines 60 to 71 of \<^verbatim>\<open>response_callback\<close>: the next batch of requests.\<close>

definition next_batch :: "('ps, 'q) pomp \<Rightarrow> crawler \<Rightarrow> response \<Rightarrow> pyval \<Rightarrow> pyval" where
  "next_batch s crawler response requests_from_items =
     (if truthy requests_from_items then
        (let requests = next_requests crawler response
         in if truthy requests then
              PIter (py_elems requests_from_items @ elems (iterator s requests))
            else requests_from_items)
      else next_requests crawler response)"

text \<open>Lines 47 to 58 of \<^verbatim>\<open>response_callback\<close>: the requests that came with the
  items, one batch or a generator of batches.\<close>

definition collect_requests ::
  "('ps, 'q) reentry \<Rightarrow> crawler \<Rightarrow> response \<Rightarrow> ('ps, 'q) pomp
     \<Rightarrow> pyval outcome \<times> ('ps, 'q) pomp" where
  "collect_requests rec crawler response s =
     (case process crawler response of
        Generator batches \<Rightarrow> process_batches rec crawler batches [] s
      | Single result \<Rightarrow> process_result rec crawler (iterator s result) s)"

text \<open>\<^verbatim>\<open>Pomp.response_callback\<close>.\<close>

definition response_callback ::
  "('ps, 'q) reentry \<Rightarrow> crawler \<Rightarrow> response \<Rightarrow> ('ps, 'q) pomp
     \<Rightarrow> pyval outcome \<times> ('ps, 'q) pomp" where
  "response_callback rec crawler response s =
     andthen (collect_requests rec crawler response s)
       (\<lambda>requests_from_items s1.
          (let next_reqs = next_batch s1 crawler response requests_from_items
           in if queue s1 \<noteq> None then (Return next_reqs, s1)
              else if is_depth_first crawler then
                (if truthy next_reqs then
                   andthen (downloader_process rec crawler (elems (iterator s1 next_reqs)) s1)
                     (\<lambda>vs s2. andthen (sync_or_async rec (filter truthy vs) crawler s2)
                        (\<lambda>d s3. (Return PNone, s3)))
                 else if \<not> stoped s1 \<and> \<not> in_process crawler (trace s1) then
                   andthen (stop crawler s1) (\<lambda>d s2. (Return PNone, s2))
                 else (Return PNone, s1))
              else (Return next_reqs, s1)))"

text \<open>\<^verbatim>\<open>Pomp._do\<close>: the loop over \<^verbatim>\<open>filter_requests(requests)\<close>, then the method.\<close>

fun do_loop ::
  "('ps, 'q) reentry \<Rightarrow> pyval list \<Rightarrow> crawler \<Rightarrow> ('ps, 'q) pomp
     \<Rightarrow> pyval outcome \<times> ('ps, 'q) pomp" where
  "do_loop rec [] crawler s = (Return PNone, s)"
| "do_loop rec (req # rest) crawler s =
     andthen (downloader_process rec crawler (elems (iterator s req)) s)
       (\<lambda>vs s1. andthen (sync_or_async rec (filter truthy vs) crawler s1)
          (\<lambda>d s2. do_loop rec rest crawler s2))"

definition do_requests ::
  "('ps, 'q) reentry \<Rightarrow> pyval \<Rightarrow> crawler \<Rightarrow> ('ps, 'q) pomp
     \<Rightarrow> pyval outcome \<times> ('ps, 'q) pomp" where
  "do_requests rec requests crawler s = do_loop rec (filter_requests s requests) crawler s"

text \<open>\<^verbatim>\<open>self.queue.put_requests(filtered)\<close> and \<^verbatim>\<open>self.queue.get_requests()\<close>.\<close>

definition queue_put :: "'q queue \<Rightarrow> pyval list \<Rightarrow> ('ps, 'q) pomp \<Rightarrow> ('ps, 'q) pomp" where
  "queue_put q filtered s =
     s\<lparr>queue := Some (q\<lparr>qstate := put_requests q filtered (qstate q)\<rparr>),
       trace := trace s @ [QueuePut filtered]\<rparr>"

definition queue_get ::
  "'q queue \<Rightarrow> ('ps, 'q) pomp \<Rightarrow> (string + pyval) \<times> ('ps, 'q) pomp" where
  "queue_get q s =
     (case get_requests q (qstate q) of
        (r, st) \<Rightarrow> (r, s\<lparr>queue := Some (q\<lparr>qstate := st\<rparr>), trace := trace s @ [QueueGet]\<rparr>))"

text \<open>The loop \<^verbatim>\<open>for requests in filter_requests(next_requests)\<close> of
  \<^verbatim>\<open>_on_next_requests\<close>.\<close>

fun put_loop :: "pyval list \<Rightarrow> ('ps, 'q) pomp \<Rightarrow> ('ps, 'q) pomp" where
  "put_loop [] s = s"
| "put_loop (requests # rest) s =
     (let filtered = filter_requests s requests
      in put_loop rest
           (case queue s of
              Some q \<Rightarrow> if filtered \<noteq> [] then queue_put q filtered s else s
            | None \<Rightarrow> s))"

text \<open>
  \<^verbatim>\<open>Pomp._on_next_requests\<close>. The queue's batch is a plain value here: a queue that
  answers with a \<^verbatim>\<open>Deferred\<close> is outside the model. The last step of the queue branch is
  \<^verbatim>\<open>_sync_or_async(next_requests, crawler, self._do)\<close>: the list
  \<^verbatim>\<open>[r for r in filter_requests(next_requests)]\<close> goes to \<^verbatim>\<open>_do\<close>.
\<close>

definition on_next_requests ::
  "('ps, 'q) reentry \<Rightarrow> pyval \<Rightarrow> crawler \<Rightarrow> ('ps, 'q) pomp
     \<Rightarrow> pyval outcome \<times> ('ps, 'q) pomp" where
  "on_next_requests rec next_reqs crawler s =
     (case queue s of
        Some q0 \<Rightarrow>
          (let s1 = put_loop (filter_requests s next_reqs) s
           in case queue s1 of
                None \<Rightarrow> (Return PNone, s1)
              | Some q \<Rightarrow>
                  (case queue_get q s1 of
                     (Inl e, s2) \<Rightarrow>
                       (Raise (QueueError e),
                        s2\<lparr>trace := trace s2 @ [LogException (QueueError e)]\<rparr>)
                   | (Inr batch, s2) \<Rightarrow>
                       andthen (check_stop batch crawler s2)
                         (\<lambda>d s3. andthen
                            (do_requests rec (PList (filter_requests s3 batch)) crawler s3)
                            (\<lambda>d s4. (Return PNone, s4)))))
      | None \<Rightarrow>
          andthen (do_requests rec next_reqs crawler s)
            (\<lambda>d s1. andthen (check_stop PNone crawler s1)
               (\<lambda>d s2. (Return PNone, s2))))"

definition step ::
  "('ps, 'q) reentry \<Rightarrow> call \<Rightarrow> crawler \<Rightarrow> ('ps, 'q) pomp
     \<Rightarrow> pyval outcome \<times> ('ps, 'q) pomp" where
  "step rec c crawler s =
     (case c of
        ResponseCallback response \<Rightarrow> response_callback rec crawler response s
      | OnNextRequests next_reqs \<Rightarrow> on_next_requests rec next_reqs crawler s)"

primrec engine :: "nat \<Rightarrow> ('ps, 'q) reentry" where
  "engine 0 = (\<lambda>c crawler s. (OutOfFuel, s))"
| "engine (Suc n) = step (engine n)"

section \<open>Starting a run\<close>

definition start_hook :: "'ps pipe \<Rightarrow> 'ps pipe" where
  "start_hook p = p\<lparr>pstate := pipe_start p (pstate p)\<rparr>"

text \<open>The loop \<^verbatim>\<open>for pipe in self.pipelines: pipe.start(crawler)\<close>.\<close>

definition start_pipes :: "('ps, 'q) pomp \<Rightarrow> ('ps, 'q) pomp" where
  "start_pipes s =
     s\<lparr>pipelines := map start_hook (pipelines s),
       trace := trace s @ map PipeStart [0..<length (pipelines s)]\<rparr>"

text \<open>Lines 146 to 159 of \<^verbatim>\<open>pump\<close>: the state in which the entry requests are looked
  at.\<close>

definition pump_init :: "('ps, 'q) pomp \<Rightarrow> ('ps, 'q) pomp" where
  "pump_init s =
     (let s1 = s\<lparr>trace := trace s @ [Prepare]\<rparr>;
          s2 = s1\<lparr>stoped := False\<rparr>;
          s3 = s2\<lparr>trace := trace s2 @ [ResetState]\<rparr>;
          s4 = start_pipes s3
      in s4\<lparr>stop_deferred := Pending\<rparr>)"

text \<open>\<^verbatim>\<open>getattr(crawler, 'ENTRY_REQUESTS', None)\<close>.\<close>

definition entry_requests :: "crawler \<Rightarrow> pyval" where
  "entry_requests crawler = (case ENTRY_REQUESTS crawler of None \<Rightarrow> PNone | Some v \<Rightarrow> v)"

text \<open>
  \<^verbatim>\<open>Pomp.pump\<close> with fuel \<open>n\<close> for the crawl. Its value is \<^verbatim>\<open>self.stop_deferred\<close>, the
  object the caller waits on: what the caller sees of it later is the field of the
  state.
\<close>

definition pump ::
  "nat \<Rightarrow> crawler \<Rightarrow> ('ps, 'q) pomp \<Rightarrow> deferred outcome \<times> ('ps, 'q) pomp" where
  "pump n crawler s =
     (let s5 = pump_init s;
          entry = entry_requests crawler
      in case queue s5 of
           Some q \<Rightarrow>
             (if truthy entry then
                andthen (downloader_process (engine n) crawler (elems (iterator s5 entry)) s5)
                  (\<lambda>vs s6. andthen (sync_or_async (engine n) (filter truthy vs) crawler s6)
                     (\<lambda>d s7. (Return (stop_deferred s7), s7)))
              else
                (case queue_get q s5 of
                   (Inl e, s6) \<Rightarrow> (Raise (QueueError e), s6)
                 | (Inr batch, s6) \<Rightarrow>
                     andthen
                       (downloader_process (engine n) crawler (elems (iterator s6 batch)) s6)
                       (\<lambda>vs s7. andthen
                          (sync_or_async (engine n) (filter truthy vs) crawler s7)
                          (\<lambda>d s8. (Return (stop_deferred s8), s8)))))
         | None \<Rightarrow>
             (if \<not> is_depth_first crawler then
                (if truthy entry then
                   andthen (downloader_process (engine n) crawler (elems (iterator s5 entry)) s5)
                     (\<lambda>vs s6. andthen (sync_or_async (engine n) (filter truthy vs) crawler s6)
                        (\<lambda>d s7. (Return (stop_deferred s7), s7)))
                 else
                   andthen (sync_or_async (engine n) (filter_requests s5 entry) crawler s5)
                     (\<lambda>d s6. (Return (stop_deferred s6), s6)))
              else
                (if truthy entry then
                   andthen (downloader_process (engine n) crawler (elems (iterator s5 entry)) s5)
                     (\<lambda>vs s6. (Return (stop_deferred s6), s6))
                 else (Return (stop_deferred s5), s5))))"

section \<open>Reading the history\<close>

text \<open>The calls of \<^verbatim>\<open>process\<close> on stage \<open>k\<close> in a history, what the stage was given
  and what it returned.\<close>

fun at_stage :: "nat \<Rightarrow> event \<Rightarrow> bool" where
  "at_stage k (PipeProcess j i v) = (j = k)"
| "at_stage k e = False"

fun given :: "event \<Rightarrow> pyval" where
  "given (PipeProcess j i v) = i"
| "given e = PNone"

fun returned :: "event \<Rightarrow> pyval" where
  "returned (PipeProcess j i v) = v"
| "returned e = PNone"

definition stage_inputs :: "nat \<Rightarrow> event list \<Rightarrow> pyval list" where
  "stage_inputs k ev = map given (filter (at_stage k) ev)"

definition stage_outputs :: "nat \<Rightarrow> event list \<Rightarrow> pyval list" where
  "stage_outputs k ev = map returned (filter (at_stage k) ev)"





text \<open>Two calls that ended alike, with a queue still configured.\<close>

definition agree :: "'a outcome \<times> ('ps, 'q) pomp \<Rightarrow> 'a outcome \<times> ('ps, 'q) pomp \<Rightarrow> bool" where
  "agree m' m = (m' = m \<and> queue (snd m) \<noteq> None)"


section \<open>Concrete collaborators\<close>

text \<open>
  Collaborators for running the engine on concrete inputs. \<open>list_iterator\<close> iterates a
  list or tuple as it is, hands an iterator object back, and wraps any other value into a
  one-element tuple. \<open>drop_pipe d\<close> remembers what it was given and drops the item
  \<open>PItem d\<close>. \<open>list_queue\<close> is a first-in first-out backlog that hands out
  everything it holds.
\<close>

definition list_iterator :: "pyval \<Rightarrow> pyval iterable" where
  "list_iterator v = (case v of PList xs \<Rightarrow> Seq xs | PIter xs \<Rightarrow> Iter xs | _ \<Rightarrow> Seq [v])"

definition drop_pipe :: "string \<Rightarrow> pyval list pipe" where
  "drop_pipe d =
     \<lparr>pstate = [], pipe_start = (\<lambda>st. []),
      pipe_process = (\<lambda>st i. (if i = PItem d then PNone else i, st @ [i])),
      pipe_stop = (\<lambda>st. st)\<rparr>"



definition url_of :: "pyval \<Rightarrow> response" where
  "url_of r = Response (case r of PStr u \<Rightarrow> u | PReq u \<Rightarrow> u | _ \<Rightarrow> [])"

definition idle_crawler :: crawler where
  "idle_crawler =
     \<lparr>process = (\<lambda>r. Single PNone), next_requests = (\<lambda>r. PNone), is_depth_first = True,
      in_process = (\<lambda>t. False), ENTRY_REQUESTS = None\<rparr>"




definition three_stages :: "pyval list pipe list" where
  "three_stages = [drop_pipe ''x'', drop_pipe ''b'', drop_pipe ''x'']"

definition fresh_pomp :: "(pyval list, pyval list) pomp" where
  "fresh_pomp =
     \<lparr>fetch = url_of, iterator = list_iterator, pipelines = [drop_pipe ''x'', drop_pipe ''b''],
      queue = None, stoped = False, stop_deferred = Pending, trace = []\<rparr>"







section \<open>Basic facts\<close>

lemma andthen_simps:
  "andthen (Return v, s) f = f v s"
  "andthen (Raise e, s) f = (Raise e, s)"
  "andthen (OutOfFuel, s) f = (OutOfFuel, s)"
  by (simp_all add: andthen_def)


lemma stop_deferred_stop_pipes: "stop_deferred (stop_pipes j s) = stop_deferred s"
  by (simp add: stop_pipes_def)

lemma stoped_stop: "stoped (snd (stop crawler s))"
  by (simp add: stop_def mark_stoped_def callback_def stop_pipes_def Let_def
      split: deferred.splits)

section \<open>The stop-condition check\<close>

text \<open>
  C2: the check takes the stop action exactly when the run is not yet marked stopped, the
  request batch it is given is empty or absent (falsy), and \<^verbatim>\<open>crawler.in_process()\<close> is
  false: then the state after the check is the state after \<^verbatim>\<open>_stop\<close>, and it differs
  from the state before. When any of the three fails, the check returns its request and
  leaves the whole state, the pipelines included, as it was.
\<close>

theorem check_stop_iff:
  "(\<not> stoped s \<and> \<not> truthy request \<and> \<not> in_process crawler (trace s)
      \<longrightarrow> snd (check_stop request crawler s) = snd (stop crawler s)
          \<and> snd (check_stop request crawler s) \<noteq> s)
   \<and> (\<not> (\<not> stoped s \<and> \<not> truthy request \<and> \<not> in_process crawler (trace s))
      \<longrightarrow> check_stop request crawler s = (Return request, s))"
proof (intro conjI impI)
  assume c: "\<not> stoped s \<and> \<not> truthy request \<and> \<not> in_process crawler (trace s)"
  show eq: "snd (check_stop request crawler s) = snd (stop crawler s)"
    using c by (simp add: check_stop_def split: prod.splits outcome.splits)
  have "stoped (snd (check_stop request crawler s))"
    unfolding eq by (rule stoped_stop)
  with c show "snd (check_stop request crawler s) \<noteq> s" by auto
next
  assume "\<not> (\<not> stoped s \<and> \<not> truthy request \<and> \<not> in_process crawler (trace s))"
  then show "check_stop request crawler s = (Return request, s)"
    by (auto simp add: check_stop_def)
qed

theorem check_stop_iff_witness:
  "(\<not> stoped fresh_pomp \<and> \<not> truthy PNone \<and> \<not> in_process idle_crawler (trace fresh_pomp))
   \<and> snd (check_stop PNone idle_crawler fresh_pomp) = snd (stop idle_crawler fresh_pomp)
   \<and> snd (check_stop PNone idle_crawler fresh_pomp) \<noteq> fresh_pomp
   \<and> \<not> (\<not> stoped fresh_pomp \<and> \<not> truthy (PStr ''a'')
          \<and> \<not> in_process idle_crawler (trace fresh_pomp))
   \<and> check_stop (PStr ''a'') idle_crawler fresh_pomp = (Return (PStr ''a''), fresh_pomp)"
proof -
  have h1: "\<not> stoped fresh_pomp \<and> \<not> truthy PNone
      \<and> \<not> in_process idle_crawler (trace fresh_pomp)"
    by (simp add: fresh_pomp_def idle_crawler_def)
  have h2: "\<not> (\<not> stoped fresh_pomp \<and> \<not> truthy (PStr ''a'')
      \<and> \<not> in_process idle_crawler (trace fresh_pomp))"
    by simp
  show ?thesis
    using h1 h2
      check_stop_iff [where s = fresh_pomp and request = PNone and crawler = idle_crawler]
      check_stop_iff [where s = fresh_pomp and request = "PStr ''a''"
        and crawler = idle_crawler]
    by blast
qed

section \<open>The order of the stop action\<close>



section \<open>The pipeline chain\<close>

lemma pipe_map_facts:
  "pipe_map k p items = (vs, p', ev) \<Longrightarrow>
     map given ev = items \<and> map returned ev = vs \<and> (\<forall>e \<in> set ev. at_stage k e)"
proof (induction items arbitrary: p vs p' ev)
  case Nil
  then show ?case by simp
next
  case (Cons i rest)
  obtain v st where a: "pipe_process p (pstate p) i = (v, st)"
    by (cases "pipe_process p (pstate p) i") auto
  obtain vs1 p1 ev1 where b: "pipe_map k (p\<lparr>pstate := st\<rparr>) rest = (vs1, p1, ev1)"
    by (cases "pipe_map k (p\<lparr>pstate := st\<rparr>) rest") auto
  from Cons.prems a b have e: "vs = v # vs1" "ev = PipeProcess k i v # ev1" by simp_all
  from Cons.IH [OF b] show ?case by (simp add: e)
qed

lemma filter_at_stage_all: "\<forall>e \<in> set ev. at_stage k e \<Longrightarrow> filter (at_stage k) ev = ev"
  by (induction ev) auto

lemma filter_at_stage_none:
  "\<forall>e \<in> set ev. at_stage k e \<Longrightarrow> j \<noteq> k \<Longrightarrow> filter (at_stage j) ev = []"
proof (induction ev)
  case Nil
  then show ?case by simp
next
  case (Cons e ev)
  then show ?case by (cases e) auto
qed


lemma pipe_items_below:
  "pipe_items k ps items = (out, ps', ev) \<Longrightarrow> j < k \<Longrightarrow> filter (at_stage j) ev = []"
proof (induction ps arbitrary: k items out ps' ev)
  case Nil
  then show ?case by simp
next
  case (Cons p ps)
  obtain vs p1 ev1 where m: "pipe_map k p items = (vs, p1, ev1)"
    by (cases "pipe_map k p items") auto
  obtain out2 ps2 ev2 where r: "pipe_items (Suc k) ps (filter truthy vs) = (out2, ps2, ev2)"
    by (cases "pipe_items (Suc k) ps (filter truthy vs)") auto
  from Cons.prems(1) m r have ev: "ev = ev1 @ ev2" by simp
  from pipe_map_facts [OF m] have "\<forall>e \<in> set ev1. at_stage k e" by simp
  with Cons.prems(2) have "filter (at_stage j) ev1 = []"
    using filter_at_stage_none [of ev1 k j] by simp
  moreover from Cons.IH [OF r] Cons.prems(2) have "filter (at_stage j) ev2 = []" by simp
  ultimately show ?case by (simp add: ev)
qed

text \<open>
  C8: in the loop over the stages, the items given to the first stage are the batch, the
  items given to every later stage are, in order, exactly the truthy values the stage
  before it returned, and the output of the chain is the truthy values the last stage
  returned. So a stage sees an item only if the stage before returned a truthy value for
  it, and an item that a stage dropped reaches no later stage and is not in the output.
\<close>

theorem pipe_items_chain:
  "pipe_items k ps items = (out, ps', ev) \<Longrightarrow>
     (\<forall>j < length ps.
        stage_inputs (k + j) ev =
          (if j = 0 then items else filter truthy (stage_outputs (k + j - 1) ev)))
     \<and> out = (if ps = [] then items else filter truthy (stage_outputs (k + length ps - 1) ev))"
proof (induction ps arbitrary: k items out ps' ev)
  case Nil
  then show ?case by simp
next
  case (Cons p ps)
  obtain vs p1 ev1 where m: "pipe_map k p items = (vs, p1, ev1)"
    by (cases "pipe_map k p items") auto
  obtain out2 ps2 ev2 where r: "pipe_items (Suc k) ps (filter truthy vs) = (out2, ps2, ev2)"
    by (cases "pipe_items (Suc k) ps (filter truthy vs)") auto
  from Cons.prems m r have ev: "ev = ev1 @ ev2" and out: "out = out2" by simp_all
  from pipe_map_facts [OF m] have g: "map given ev1 = items" and v: "map returned ev1 = vs"
    and a: "\<forall>e \<in> set ev1. at_stage k e" by simp_all
  have k1: "filter (at_stage k) ev1 = ev1" using a by (rule filter_at_stage_all)
  have k2: "filter (at_stage k) ev2 = []" using pipe_items_below [OF r, of k] by simp
  have o1: "filter (at_stage j) ev1 = []" if "j \<noteq> k" for j
    using a that filter_at_stage_none [of ev1 k j] by simp
  have in_k: "stage_inputs k ev = items" by (simp add: stage_inputs_def ev k1 k2 g)
  have out_k: "stage_outputs k ev = vs" by (simp add: stage_outputs_def ev k1 k2 v)
  have later_in: "stage_inputs j ev = stage_inputs j ev2" if "j > k" for j
    using that o1 [of j] by (simp add: stage_inputs_def ev)
  have later_out: "stage_outputs j ev = stage_outputs j ev2" if "j > k" for j
    using that o1 [of j] by (simp add: stage_outputs_def ev)
  note ih = Cons.IH [OF r]
  have first: "stage_inputs (k + j) ev =
        (if j = 0 then items else filter truthy (stage_outputs (k + j - 1) ev))"
    if j: "j < length (p # ps)" for j
  proof (cases j)
    case 0
    then show ?thesis by (simp add: in_k)
  next
    case (Suc i)
    with j have i: "i < length ps" by simp
    from ih i have e: "stage_inputs (Suc k + i) ev2 =
        (if i = 0 then filter truthy vs else filter truthy (stage_outputs (Suc k + i - 1) ev2))"
      by blast
    show ?thesis
    proof (cases i)
      case 0
      have "stage_inputs (Suc k) ev = stage_inputs (Suc k) ev2" by (rule later_in) simp
      with 0 Suc e show ?thesis by (simp add: out_k)
    next
      case (Suc i')
      have a1: "stage_inputs (Suc (Suc (k + i'))) ev = stage_inputs (Suc (Suc (k + i'))) ev2"
        by (rule later_in) simp
      have a2: "stage_outputs (Suc (k + i')) ev = stage_outputs (Suc (k + i')) ev2"
        by (rule later_out) simp
      from Suc \<open>j = Suc i\<close> e a1 a2 show ?thesis by simp
    qed
  qed
  have last: "out = filter truthy (stage_outputs (k + length (p # ps) - 1) ev)"
  proof (cases ps)
    case Nil
    with r out show ?thesis by (simp add: out_k)
  next
    case (Cons q qs)
    with ih have "out2 = filter truthy (stage_outputs (Suc k + length ps - 1) ev2)" by simp
    moreover have "stage_outputs (k + length ps) ev = stage_outputs (k + length ps) ev2"
      by (rule later_out) (simp add: Cons)
    ultimately show ?thesis using out by simp
  qed
  from first last show ?case by simp
qed


theorem pipe_items_chain_witness:
  "(2::nat) < length three_stages
   \<and> stage_outputs 1 (snd (snd (pipe_items 0 three_stages [PItem ''a'', PItem ''b''])))
       = [PItem ''a'', PNone]
   \<and> stage_inputs 2 (snd (snd (pipe_items 0 three_stages [PItem ''a'', PItem ''b''])))
       = [PItem ''a'']
   \<and> fst (pipe_items 0 three_stages [PItem ''a'', PItem ''b'']) = [PItem ''a'']"
proof -
  let ?r = "pipe_items 0 three_stages [PItem ''a'', PItem ''b'']"
  have e: "?r = (fst ?r, fst (snd ?r), snd (snd ?r))" by simp
  have l: "(2::nat) < length three_stages" by (simp add: three_stages_def)
  have o: "stage_outputs 1 (snd (snd ?r)) = [PItem ''a'', PNone]"
    by (simp add: three_stages_def drop_pipe_def stage_outputs_def)
  from pipe_items_chain [OF e] l
  have "stage_inputs (0 + 2) (snd (snd ?r)) =
      (if (2::nat) = 0 then [PItem ''a'', PItem ''b'']
       else filter truthy (stage_outputs (0 + 2 - 1) (snd (snd ?r))))"
    by blast
  then have i: "stage_inputs 2 (snd (snd ?r)) = filter truthy (stage_outputs 1 (snd (snd ?r)))"
    by (simp add: numeral_2_eq_2)
  have f: "fst ?r = filter truthy (stage_outputs (0 + length three_stages - 1) (snd (snd ?r)))"
    using pipe_items_chain [OF e] by (simp add: three_stages_def)
  have o2: "stage_outputs (0 + length three_stages - 1) (snd (snd ?r)) = [PItem ''a'']"
    by (simp add: three_stages_def drop_pipe_def stage_outputs_def)
  show ?thesis using l o i f o2 by simp
qed

section \<open>A failing queue\<close>








section \<open>Runs that hand their requests on\<close>






section \<open>The next batch\<close>




section \<open>Classifying what the crawler produced\<close>





section \<open>A generator of batches\<close>











section \<open>A run without entry requests\<close>

lemma pump_init_fields:
  "queue (pump_init s) = queue s" "iterator (pump_init s) = iterator s"
  "fetch (pump_init s) = fetch s" "\<not> stoped (pump_init s)"
  "stop_deferred (pump_init s) = Pending"
  "pipelines (pump_init s) = map start_hook (pipelines s)"
  "trace (pump_init s) =
     trace s @ [Prepare, ResetState] @ map PipeStart [0..<length (pipelines s)]"
  by (simp_all add: pump_init_def start_pipes_def Let_def)

lemma filter_requests_pump_init: "filter_requests (pump_init s) v = filter_requests s v"
  by (simp add: filter_requests_def pump_init_fields)

lemma pump_breadth_first_empty:
  assumes "queue s = None" and "\<not> is_depth_first crawler"
    and "\<not> truthy (entry_requests crawler)"
    and "filter_requests s (entry_requests crawler) = []"
    and "filter_requests s (PList []) = []"
    and "\<not> in_process crawler (trace (pump_init s))"
  shows "pump (Suc n) crawler s =
     (Return (Fired PNone),
      (stop_pipes (length (pipelines s)) (mark_stoped (pump_init s)))
         \<lparr>stop_deferred := Fired PNone\<rparr>)"
proof -
  have c: "check_stop PNone crawler (pump_init s) =
      (Return PNone, (stop_pipes (length (pipelines s)) (mark_stoped (pump_init s)))
         \<lparr>stop_deferred := Fired PNone\<rparr>)"
    using assms(6)
    by (simp add: check_stop_def stop_def callback_def pump_init_fields mark_stoped_def
        stop_deferred_stop_pipes Let_def)
  have o: "on_next_requests (engine n) (PList []) crawler (pump_init s) =
      (Return PNone, (stop_pipes (length (pipelines s)) (mark_stoped (pump_init s)))
         \<lparr>stop_deferred := Fired PNone\<rparr>)"
    using assms(1,5) c
    by (simp add: on_next_requests_def do_requests_def filter_requests_pump_init
        pump_init_fields andthen_simps)
  show ?thesis
    using assms(1-4) o
    by (simp add: pump_def Let_def pump_init_fields filter_requests_pump_init sync_or_async_def
        step_def andthen_simps stop_deferred_stop_pipes)
qed




lemma pump_depth_first_empty:
  "queue s = None \<Longrightarrow> is_depth_first crawler \<Longrightarrow> \<not> truthy (entry_requests crawler) \<Longrightarrow>
     pump n crawler s = (Return Pending, pump_init s)"
  by (simp add: pump_def Let_def pump_init_fields)

text \<open>The first pull of \<^verbatim>\<open>pump\<close> from the queue (line 173) is not guarded: an exception
  of \<^verbatim>\<open>get_requests\<close> there leaves \<^verbatim>\<open>pump\<close> as it is, without a log entry.\<close>

lemma pump_pull_failure:
  "queue s = Some q \<Longrightarrow> \<not> truthy (entry_requests crawler) \<Longrightarrow>
   get_requests q (qstate q) = (Inl msg, st) \<Longrightarrow>
     pump n crawler s =
       (Raise (QueueError msg),
        (pump_init s)\<lparr>queue := Some (q\<lparr>qstate := st\<rparr>),
                      trace := trace (pump_init s) @ [QueueGet]\<rparr>)"
  by (simp add: pump_def Let_def pump_init_fields queue_get_def)


text \<open>
  C1 on a depth-first crawler: without a queue and without entry requests, \<^verbatim>\<open>pump\<close>
  starts the stages and returns. Whatever the fuel, the completion signal it returns is
  still pending, the run is not marked stopped and no stage has received \<^verbatim>\<open>stop\<close>,
  although the crawler has nothing in process (\<open>pump_depth_first_empty\<close> has the general
  case). The breadth-first branch of \<^verbatim>\<open>pump\<close> does stop such a run
  (\<open>pump_breadth_first_empty\<close>, \<open>pump_breadth_first_idle\<close>).
\<close>

theorem pump_depth_first_idle:
  "is_depth_first idle_crawler \<and> queue fresh_pomp = None
   \<and> \<not> truthy (entry_requests idle_crawler)
   \<and> \<not> in_process idle_crawler [Prepare, ResetState, PipeStart 0, PipeStart 1]
   \<and> pump n idle_crawler fresh_pomp =
       (Return Pending,
        fresh_pomp\<lparr>pipelines := map start_hook (pipelines fresh_pomp),
                    trace := [Prepare, ResetState, PipeStart 0, PipeStart 1]\<rparr>)
   \<and> \<not> stoped (snd (pump n idle_crawler fresh_pomp))"
  by (simp add: pump_def pump_init_def start_pipes_def entry_requests_def idle_crawler_def
      fresh_pomp_def Let_def)

section \<open>Stopping once\<close>





























section \<open>Queue mode\<close>


lemma agree_refl: "queue s \<noteq> None \<Longrightarrow> agree (r, s) (r, s)"
  by (simp add: agree_def)


















end
